theory Spec2Isabelle
  imports Complex_Main
begin

section \<open>Legacy travel-reimbursement emulator: rule engine and hybrid blend\<close>

text \<open>
  The model follows \<^verbatim>\<open>handcrafted_v2.py\<close> (the rule engine) and
  \<^verbatim>\<open>calculate_reimbursement.py\<close> (the hybrid blend with the random forest), at two levels.
  Python's \<^verbatim>\<open>int\<close> is \<^typ>\<open>int\<close> in both.

  In the first model Python's \<^verbatim>\<open>float\<close> is idealised as \<^typ>\<open>real\<close>: every arithmetic
  operation is exact. It carries the scenarios and the properties of the formulas that do
  not depend on binary rounding.

  The second model (its constants end in \<open>_b64\<close>) computes on IEEE 754 binary64 as CPython
  does: every operation rounds to the nearest double, a result too large is an infinity, and
  the exceptions the interpreter raises are values of the result type. It carries the
  properties that depend on a comparison or a rounding of the floats themselves.
\<close>

subsection \<open>Errors and rounding\<close>

datatype py_error = ZeroDivisionError | OverflowError | ValueError

text \<open>Python's one-argument \<^verbatim>\<open>round(x)\<close>: the nearest integer, a tie going to the even one.\<close>

definition py_round :: "real \<Rightarrow> int" where
  "py_round x =
     (let f = \<lfloor>x\<rfloor>; t = x - real_of_int f
      in if t < 1 / 2 then f
         else if 1 / 2 < t then f + 1
         else if even f then f else f + 1)"

text \<open>Python's \<^verbatim>\<open>round(x, 2)\<close>: the nearest multiple of one cent, ties to even.\<close>

definition round2 :: "real \<Rightarrow> real" where
  "round2 x = real_of_int (py_round (x * 100)) / 100"

subsection \<open>The constants table \<^verbatim>\<open>C\<close>\<close>

definition BASE :: real where "BASE = 97.2"
definition LONG_K :: real where "LONG_K = 0.111"
definition M_DELTA :: "real list" where "M_DELTA = [-261, -25, 21, 254, 314]"
definition R12_LOW :: real where "R12_LOW = 0.60"
definition R12_HIGH :: real where "R12_HIGH = 0.15"
definition R12_KNEE :: real where "R12_KNEE = 1000"
definition R36_LOW :: real where "R36_LOW = 0.45"
definition R36_HIGH :: real where "R36_HIGH = 0.15"
definition R36_KNEE :: real where "R36_KNEE = 1000"
definition R7_BASE :: real where "R7_BASE = 0.45"
definition R7_SPILL :: real where "R7_SPILL = 0.15"
definition R7_KNEE_PD :: real where "R7_KNEE_PD = 150"
definition R7_P0 :: real where "R7_P0 = 0.25"
definition R7_P_S :: real where "R7_P_S = 0.02"
definition FIVE_BONUS :: real where "FIVE_BONUS = 79"
definition FIVE_CAP :: real where "FIVE_CAP = 1720"
definition WEEK_BONUS :: real where "WEEK_BONUS = 280"
definition FORT_PEN :: real where "FORT_PEN = -370"
definition EFF_PEAK :: real where "EFF_PEAK = 200"
definition EFF_WIDTH :: real where "EFF_WIDTH = 260"
definition EFF_BONUS :: real where "EFF_BONUS = 80"
definition ONE_DAY_WARRIOR_BONUS :: real where "ONE_DAY_WARRIOR_BONUS = 235"
definition LMILE_CAP_PD :: real where "LMILE_CAP_PD = 900"
definition LMILE_PEN_RATE :: real where "LMILE_PEN_RATE = 0.90"
definition BUG :: real where "BUG = 0.60"

subsection \<open>Helper functions of the rule engine\<close>

definition long_fac :: "int \<Rightarrow> real" where
  "long_fac d = (if d \<le> 7 then 1 else max 0 (1 - LONG_K * ln (real_of_int (d - 6))))"

text \<open>
  The loop \<^verbatim>\<open>for lim,dl in zip(lims,C["M_DELTA"]): if m<=lim: return dl\<close>:
  the delta of the first pair whose limit the mileage does not exceed, \<open>None\<close> when the
  loop falls through.
\<close>

fun first_tier :: "(real \<times> real) list \<Rightarrow> real \<Rightarrow> real option" where
  "first_tier [] m = None"
| "first_tier ((l, dl) # rest) m = (if m \<le> l then Some dl else first_tier rest m)"

definition lims :: "real list" where
  "lims = [100, 300, 600, 1000]"

definition mile_delta :: "int \<Rightarrow> real \<Rightarrow> real" where
  "mile_delta d m =
     (if m \<le> 100 then
        (if d = 1 then 0
         else if d \<le> 3 then -150
         else if d \<le> 6 then -100
         else -50)
      else (case first_tier (zip lims M_DELTA) m of
              Some dl \<Rightarrow> dl
            | None \<Rightarrow> last M_DELTA))"

definition rec_1_6 :: "int \<Rightarrow> real \<Rightarrow> real \<Rightarrow> real \<Rightarrow> real \<Rightarrow> real" where
  "rec_1_6 d rec low hi knee_pd =
     (let knee = knee_pd * real_of_int d
      in if rec \<le> knee then low * rec else low * knee + hi * (rec - knee))"

definition rec_7_plus :: "int \<Rightarrow> real \<Rightarrow> real" where
  "rec_7_plus d rec =
     (let knee = R7_KNEE_PD * real_of_int d;
          base = R7_BASE * min rec knee;
          spill = R7_SPILL * max 0 (min (rec - knee) knee);
          pen_rate = R7_P0 + R7_P_S * real_of_int d;
          penalty = pen_rate * max 0 (rec - 2 * knee)
      in base + spill - penalty)"

definition rec_comp :: "int \<Rightarrow> real \<Rightarrow> real" where
  "rec_comp d rec =
     (if d \<le> 2 then rec_1_6 d rec R12_LOW R12_HIGH R12_KNEE
      else if d \<le> 6 then rec_1_6 d rec R36_LOW R36_HIGH R36_KNEE
      else rec_7_plus d rec)"

text \<open>\<^verbatim>\<open>mpd=m/d\<close> raises \<^verbatim>\<open>ZeroDivisionError\<close> when the day count is zero.\<close>

definition eff_bonus :: "int \<Rightarrow> real \<Rightarrow> py_error + real" where
  "eff_bonus d m =
     (if d = 0 then Inl ZeroDivisionError
      else
        (let mpd = m / real_of_int d;
             sc = 1 - ((mpd - EFF_PEAK) / EFF_WIDTH)\<^sup>2;
             peak = (if d \<le> 6 then 80 else EFF_BONUS);
             val = sc * peak
         in Inr (if d \<ge> 7 then val else max 0 val)))"

definition fortnight_adj :: "int \<Rightarrow> real \<Rightarrow> real" where
  "fortnight_adj d rpd =
     (if 7 \<le> d \<and> d \<le> 8 \<and> 120 \<le> rpd \<and> rpd \<le> 180 then WEEK_BONUS
      else if 13 \<le> d \<and> d \<le> 14 \<and> 150 \<le> rpd \<and> rpd \<le> 200 then FORT_PEN
      else 0)"

definition low_mile_penalty :: "int \<Rightarrow> real \<Rightarrow> real \<Rightarrow> real" where
  "low_mile_penalty d m rec =
     (if (d = 3 \<or> d = 4) \<and> m \<le> 100 then
        (let cap = LMILE_CAP_PD * real_of_int d;
             excess = max 0 (rec - cap)
         in - LMILE_PEN_RATE * excess)
      else 0)"

definition hits_bug :: "real \<Rightarrow> bool" where
  "hits_bug r = (let c = py_round (r * 100) mod 100 in c = 49 \<or> c = 99)"

subsection \<open>Main calculation\<close>

definition calculate_reimbursement :: "int \<Rightarrow> real \<Rightarrow> real \<Rightarrow> py_error + real" where
  "calculate_reimbursement d m r =
     (case eff_bonus d m of
        Inl e \<Rightarrow> Inl e
      | Inr eb \<Rightarrow>
         (let total = BASE * real_of_int d * long_fac d + mile_delta d m + rec_comp d r + eb;
              total = (if d = 5 then min (total + FIVE_BONUS) FIVE_CAP else total);
              total = (if d = 1 \<and> m > 500 then total + ONE_DAY_WARRIOR_BONUS else total);
              total = total + low_mile_penalty d m r;
              total = total + fortnight_adj d (r / real_of_int d);
              total = (if hits_bug r then total * BUG else total)
          in Inr (round2 total)))"

text \<open>
  The value of the variable \<^verbatim>\<open>total\<close> of \<^verbatim>\<open>calculate_reimbursement\<close> when control
  reaches the test \<^verbatim>\<open>if hits_bug(r)\<close>: the body of the function up to and including the
  fortnight adjustment.
\<close>

definition total_before_bug :: "int \<Rightarrow> real \<Rightarrow> real \<Rightarrow> py_error + real" where
  "total_before_bug d m r =
     (case eff_bonus d m of
        Inl e \<Rightarrow> Inl e
      | Inr eb \<Rightarrow>
         (let total = BASE * real_of_int d * long_fac d + mile_delta d m + rec_comp d r + eb;
              total = (if d = 5 then min (total + FIVE_BONUS) FIVE_CAP else total);
              total = (if d = 1 \<and> m > 500 then total + ONE_DAY_WARRIOR_BONUS else total);
              total = total + low_mile_penalty d m r;
              total = total + fortnight_adj d (r / real_of_int d)
          in Inr total))"

subsection \<open>Binary64 arithmetic\<close>

text \<open>
  The second model computes as CPython does on IEEE 754 binary64. A finite float is the real
  number it denotes (the two zeros are one value: they compare equal and no operation of the
  program tells them apart); \<open>rnd\<close> rounds a real to the nearest number with a 53-bit
  significand and an exponent of at least -1074, a tie going to the even significand.
\<close>

datatype pyfloat = Fin real | PInf | NInf | NaN

definition bexp :: "real \<Rightarrow> int" where
  "bexp x = \<lfloor>log 2 \<bar>x\<bar>\<rfloor>"

definition ulp :: "real \<Rightarrow> real" where
  "ulp x = 2 powr real_of_int (max (bexp x) (- 1022) - 52)"

definition rnd :: "real \<Rightarrow> real" where
  "rnd x = (if x = 0 then 0 else real_of_int (py_round (x / ulp x)) * ulp x)"

text \<open>A rounded result of magnitude \<open>2 ^ 1024\<close> or more is an infinity.\<close>

definition round_double :: "real \<Rightarrow> pyfloat" where
  "round_double x =
     (let y = rnd x
      in if 2 ^ 1024 \<le> y then PInf else if y \<le> - (2 ^ 1024) then NInf else Fin y)"

text \<open>A decimal literal of the source denotes the nearest double.\<close>

definition lit :: "real \<Rightarrow> pyfloat" where
  "lit x = Fin (rnd x)"

fun fneg :: "pyfloat \<Rightarrow> pyfloat" where
  "fneg (Fin x) = Fin (- x)"
| "fneg PInf = NInf"
| "fneg NInf = PInf"
| "fneg NaN = NaN"

fun fabs :: "pyfloat \<Rightarrow> pyfloat" where
  "fabs (Fin x) = Fin \<bar>x\<bar>"
| "fabs PInf = PInf"
| "fabs NInf = PInf"
| "fabs NaN = NaN"

fun fsign :: "pyfloat \<Rightarrow> int" where
  "fsign (Fin x) = (if x = 0 then 0 else if 0 < x then 1 else - 1)"
| "fsign PInf = 1"
| "fsign NInf = - 1"
| "fsign NaN = 0"

fun fadd :: "pyfloat \<Rightarrow> pyfloat \<Rightarrow> pyfloat" where
  "fadd (Fin x) (Fin y) = round_double (x + y)"
| "fadd NaN b = NaN"
| "fadd a NaN = NaN"
| "fadd PInf NInf = NaN"
| "fadd NInf PInf = NaN"
| "fadd PInf b = PInf"
| "fadd NInf b = NInf"
| "fadd a PInf = PInf"
| "fadd a NInf = NInf"

definition fsub :: "pyfloat \<Rightarrow> pyfloat \<Rightarrow> pyfloat" where
  "fsub a b = fadd a (fneg b)"

fun fmul :: "pyfloat \<Rightarrow> pyfloat \<Rightarrow> pyfloat" where
  "fmul (Fin x) (Fin y) = round_double (x * y)"
| "fmul a b =
     (if fsign a * fsign b = 0 then NaN else if 0 < fsign a * fsign b then PInf else NInf)"

text \<open>Python's \<^verbatim>\<open>/\<close> on floats raises when the divisor is zero.\<close>

fun fdiv :: "pyfloat \<Rightarrow> pyfloat \<Rightarrow> py_error + pyfloat" where
  "fdiv a (Fin y) =
     (if y = 0 then Inl ZeroDivisionError
      else case a of
             Fin x \<Rightarrow> Inr (round_double (x / y))
           | NaN \<Rightarrow> Inr NaN
           | _ \<Rightarrow> Inr (if 0 < fsign a * fsign (Fin y) then PInf else NInf))"
| "fdiv NaN b = Inr NaN"
| "fdiv a NaN = Inr NaN"
| "fdiv (Fin x) b = Inr (Fin 0)"
| "fdiv a b = Inr NaN"

text \<open>
  \<^verbatim>\<open>x**2\<close>: an overflow of the square of a finite float raises \<^verbatim>\<open>OverflowError\<close>.
  The square is taken as correctly rounded.
\<close>

fun fpow2 :: "pyfloat \<Rightarrow> py_error + pyfloat" where
  "fpow2 (Fin x) =
     (case round_double (x * x) of Fin y \<Rightarrow> Inr (Fin y) | _ \<Rightarrow> Inl OverflowError)"
| "fpow2 NaN = Inr NaN"
| "fpow2 a = Inr PInf"

fun fle :: "pyfloat \<Rightarrow> pyfloat \<Rightarrow> bool" where
  "fle (Fin x) (Fin y) = (x \<le> y)"
| "fle NaN b = False"
| "fle a NaN = False"
| "fle NInf b = True"
| "fle a PInf = True"
| "fle PInf (Fin y) = False"
| "fle a NInf = False"

definition flt :: "pyfloat \<Rightarrow> pyfloat \<Rightarrow> bool" where
  "flt a b = (fle a b \<and> a \<noteq> b)"

text \<open>
  \<^verbatim>\<open>max(a, b)\<close> keeps \<open>a\<close> unless \<open>b\<close> is greater, \<^verbatim>\<open>min(a, b)\<close> keeps \<open>a\<close> unless
  \<open>b\<close> is smaller.
\<close>

definition pymax :: "pyfloat \<Rightarrow> pyfloat \<Rightarrow> pyfloat" where
  "pymax a b = (if flt a b then b else a)"

definition pymin :: "pyfloat \<Rightarrow> pyfloat \<Rightarrow> pyfloat" where
  "pymin a b = (if flt b a then b else a)"

text \<open>An \<^verbatim>\<open>int\<close> operand of a float operation is converted first; this fails when it is too large.\<close>

definition to_float :: "int \<Rightarrow> py_error + pyfloat" where
  "to_float d = (case round_double (real_of_int d) of Fin x \<Rightarrow> Inr (Fin x) | _ \<Rightarrow> Inl OverflowError)"

text \<open>\<^verbatim>\<open>round(x)\<close> of a float is an \<^verbatim>\<open>int\<close>; it raises on an infinity and on a NaN.\<close>

fun round_to_int :: "pyfloat \<Rightarrow> py_error + int" where
  "round_to_int (Fin x) = Inr (py_round x)"
| "round_to_int NaN = Inl ValueError"
| "round_to_int a = Inl OverflowError"

text \<open>
  \<^verbatim>\<open>round(x, 2)\<close>: the decimal with two places nearest to the exact value of \<open>x\<close> (a tie going
  to the even one), converted back to the nearest double; an infinity or a NaN is returned as it is.
\<close>

fun round2_b64 :: "pyfloat \<Rightarrow> pyfloat" where
  "round2_b64 (Fin x) = round_double (real_of_int (py_round (x * 100)) / 100)"
| "round2_b64 a = a"

subsection \<open>The rule engine on binary64\<close>

text \<open>
  \<^verbatim>\<open>math.log\<close> is the C library's logarithm; it is taken as correctly rounded.
\<close>

definition long_fac_b64 :: "int \<Rightarrow> pyfloat" where
  "long_fac_b64 d =
     (if d \<le> 7 then Fin 1
      else pymax (Fin 0) (fsub (Fin 1) (fmul (lit LONG_K) (round_double (ln (real_of_int (d - 6)))))))"

fun first_tier_b64 :: "(real \<times> real) list \<Rightarrow> pyfloat \<Rightarrow> real option" where
  "first_tier_b64 [] m = None"
| "first_tier_b64 ((l, dl) # rest) m = (if fle m (Fin l) then Some dl else first_tier_b64 rest m)"

definition mile_delta_b64 :: "int \<Rightarrow> pyfloat \<Rightarrow> pyfloat" where
  "mile_delta_b64 d m =
     (if fle m (Fin 100) then
        (if d = 1 then Fin 0
         else if d \<le> 3 then Fin (- 150)
         else if d \<le> 6 then Fin (- 100)
         else Fin (- 50))
      else (case first_tier_b64 (zip lims M_DELTA) m of
              Some dl \<Rightarrow> Fin dl
            | None \<Rightarrow> Fin (last M_DELTA)))"

definition rec_1_6_b64 ::
    "int \<Rightarrow> pyfloat \<Rightarrow> pyfloat \<Rightarrow> pyfloat \<Rightarrow> pyfloat \<Rightarrow> py_error + pyfloat" where
  "rec_1_6_b64 d rec low hi knee_pd =
     (case to_float d of
        Inl e \<Rightarrow> Inl e
      | Inr df \<Rightarrow>
         (let knee = fmul knee_pd df
          in Inr (if fle rec knee then fmul low rec
                  else fadd (fmul low knee) (fmul hi (fsub rec knee)))))"

definition rec_7_plus_b64 :: "int \<Rightarrow> pyfloat \<Rightarrow> py_error + pyfloat" where
  "rec_7_plus_b64 d rec =
     (case to_float d of
        Inl e \<Rightarrow> Inl e
      | Inr df \<Rightarrow>
         (let knee = fmul (lit R7_KNEE_PD) df;
              base = fmul (lit R7_BASE) (pymin rec knee);
              spill = fmul (lit R7_SPILL) (pymax (Fin 0) (pymin (fsub rec knee) knee));
              pen_rate = fadd (lit R7_P0) (fmul (lit R7_P_S) df);
              penalty = fmul pen_rate (pymax (Fin 0) (fsub rec (fmul (Fin 2) knee)))
          in Inr (fsub (fadd base spill) penalty)))"

definition rec_comp_b64 :: "int \<Rightarrow> pyfloat \<Rightarrow> py_error + pyfloat" where
  "rec_comp_b64 d rec =
     (if d \<le> 2 then rec_1_6_b64 d rec (lit R12_LOW) (lit R12_HIGH) (lit R12_KNEE)
      else if d \<le> 6 then rec_1_6_b64 d rec (lit R36_LOW) (lit R36_HIGH) (lit R36_KNEE)
      else rec_7_plus_b64 d rec)"

definition eff_bonus_b64 :: "int \<Rightarrow> pyfloat \<Rightarrow> py_error + pyfloat" where
  "eff_bonus_b64 d m =
     (case to_float d of
        Inl e \<Rightarrow> Inl e
      | Inr df \<Rightarrow>
         (case fdiv m df of
            Inl e \<Rightarrow> Inl e
          | Inr mpd \<Rightarrow>
             (case fdiv (fsub mpd (lit EFF_PEAK)) (lit EFF_WIDTH) of
                Inl e \<Rightarrow> Inl e
              | Inr q \<Rightarrow>
                 (case fpow2 q of
                    Inl e \<Rightarrow> Inl e
                  | Inr sq \<Rightarrow>
                     (let sc = fsub (Fin 1) sq;
                          peak = (if d \<le> 6 then Fin 80 else lit EFF_BONUS);
                          val = fmul sc peak
                      in Inr (if d \<ge> 7 then val else pymax (Fin 0) val))))))"

definition fortnight_adj_b64 :: "int \<Rightarrow> pyfloat \<Rightarrow> pyfloat" where
  "fortnight_adj_b64 d rpd =
     (if 7 \<le> d \<and> d \<le> 8 \<and> fle (Fin 120) rpd \<and> fle rpd (Fin 180) then lit WEEK_BONUS
      else if 13 \<le> d \<and> d \<le> 14 \<and> fle (Fin 150) rpd \<and> fle rpd (Fin 200) then lit FORT_PEN
      else Fin 0)"

definition low_mile_penalty_b64 :: "int \<Rightarrow> pyfloat \<Rightarrow> pyfloat \<Rightarrow> py_error + pyfloat" where
  "low_mile_penalty_b64 d m rec =
     (if (d = 3 \<or> d = 4) \<and> fle m (Fin 100) then
        (case to_float d of
           Inl e \<Rightarrow> Inl e
         | Inr df \<Rightarrow>
            (let cap = fmul (lit LMILE_CAP_PD) df;
                 excess = pymax (Fin 0) (fsub rec cap)
             in Inr (fmul (fneg (lit LMILE_PEN_RATE)) excess)))
      else Inr (Fin 0))"

definition hits_bug_b64 :: "pyfloat \<Rightarrow> py_error + bool" where
  "hits_bug_b64 r =
     (case round_to_int (fmul r (Fin 100)) of
        Inl e \<Rightarrow> Inl e
      | Inr n \<Rightarrow> Inr (let c = n mod 100 in c = 49 \<or> c = 99))"

text \<open>
  The statements of \<^verbatim>\<open>calculate_reimbursement\<close> from the test \<^verbatim>\<open>if hits_bug(r)\<close> on,
  as a function of the running total.
\<close>

definition bug_and_round_b64 :: "pyfloat \<Rightarrow> pyfloat \<Rightarrow> py_error + pyfloat" where
  "bug_and_round_b64 t r =
     (case hits_bug_b64 r of
        Inl e \<Rightarrow> Inl e
      | Inr b \<Rightarrow> Inr (round2_b64 (if b then fmul t (lit BUG) else t)))"

text \<open>The statements before it: the running total when control reaches that test.\<close>

definition running_total_b64 :: "int \<Rightarrow> pyfloat \<Rightarrow> pyfloat \<Rightarrow> py_error + pyfloat" where
  "running_total_b64 d m r =
     (case to_float d of
        Inl e \<Rightarrow> Inl e
      | Inr df \<Rightarrow>
         (case rec_comp_b64 d r of
            Inl e \<Rightarrow> Inl e
          | Inr rc \<Rightarrow>
             (case eff_bonus_b64 d m of
                Inl e \<Rightarrow> Inl e
              | Inr eb \<Rightarrow>
                 (case low_mile_penalty_b64 d m r of
                    Inl e \<Rightarrow> Inl e
                  | Inr lp \<Rightarrow>
                     (case fdiv r df of
                        Inl e \<Rightarrow> Inl e
                      | Inr rpd \<Rightarrow>
                         (let total = fadd (fadd (fadd (fmul (fmul (lit BASE) df) (long_fac_b64 d))
                                                       (mile_delta_b64 d m)) rc) eb;
                              total = (if d = 5 then pymin (fadd total (lit FIVE_BONUS)) (lit FIVE_CAP)
                                       else total);
                              total = (if d = 1 \<and> flt (Fin 500) m
                                       then fadd total (lit ONE_DAY_WARRIOR_BONUS) else total);
                              total = fadd total lp;
                              total = fadd total (fortnight_adj_b64 d rpd)
                          in Inr total))))))"

definition calculate_reimbursement_b64 :: "int \<Rightarrow> pyfloat \<Rightarrow> pyfloat \<Rightarrow> py_error + pyfloat" where
  "calculate_reimbursement_b64 d m r =
     (case running_total_b64 d m r of
        Inl e \<Rightarrow> Inl e
      | Inr t \<Rightarrow> bug_and_round_b64 t r)"

subsection \<open>The hybrid on binary64\<close>

definition hybrid_calculate_reimbursement_b64 ::
    "(int \<Rightarrow> pyfloat \<Rightarrow> pyfloat \<Rightarrow> pyfloat) \<Rightarrow> int \<Rightarrow> pyfloat \<Rightarrow> pyfloat \<Rightarrow> py_error + pyfloat" where
  "hybrid_calculate_reimbursement_b64 forest_pred days miles receipts =
     (case calculate_reimbursement_b64 days miles receipts of
        Inl e \<Rightarrow> Inl e
      | Inr h \<Rightarrow>
         (let f = forest_pred days miles receipts;
              h = (if flt (Fin 100) (fabs (fsub h f)) then fadd h (fmul (lit 0.9) (fsub f h)) else h)
          in Inr (round2_b64 h)))"

subsection \<open>Facts about rounding\<close>

lemmas C_defs =
  BASE_def LONG_K_def M_DELTA_def R12_LOW_def R12_HIGH_def R12_KNEE_def
  R36_LOW_def R36_HIGH_def R36_KNEE_def R7_BASE_def R7_SPILL_def R7_KNEE_PD_def
  R7_P0_def R7_P_S_def FIVE_BONUS_def FIVE_CAP_def WEEK_BONUS_def FORT_PEN_def
  EFF_PEAK_def EFF_WIDTH_def EFF_BONUS_def ONE_DAY_WARRIOR_BONUS_def
  LMILE_CAP_PD_def LMILE_PEN_RATE_def BUG_def

lemma py_round_eqI:
  assumes "real_of_int n - 1 / 2 < x" and "x < real_of_int n + 1 / 2"
  shows "py_round x = n"
proof -
  have "\<lfloor>x\<rfloor> = n \<or> \<lfloor>x\<rfloor> = n - 1"
    using assms by linarith
  then show ?thesis
  proof
    assume "\<lfloor>x\<rfloor> = n"
    with assms show ?thesis by (simp add: py_round_def Let_def)
  next
    assume "\<lfloor>x\<rfloor> = n - 1"
    with assms show ?thesis by (simp add: py_round_def Let_def)
  qed
qed

lemma py_round_of_int: "py_round (real_of_int n) = n"
  by (simp add: py_round_def)

lemma py_round_upper: "real_of_int (py_round x) \<le> x + 1 / 2"
  unfolding py_round_def Let_def by (auto) linarith+

lemma py_round_lower: "x - 1 / 2 \<le> real_of_int (py_round x)"
  unfolding py_round_def Let_def by (auto) linarith+

lemma py_round_le_int:
  assumes "x \<le> real_of_int n"
  shows "py_round x \<le> n"
proof (cases "x = real_of_int n")
  case True
  then show ?thesis by (simp add: py_round_of_int)
next
  case False
  with assms have "x < real_of_int n" by simp
  then have "\<lfloor>x\<rfloor> < n" by linarith
  then show ?thesis
    unfolding py_round_def Let_def by auto
qed

lemma py_round_ge_int:
  assumes "real_of_int n \<le> x"
  shows "n \<le> py_round x"
proof -
  from assms have "n \<le> \<lfloor>x\<rfloor>" by linarith
  then show ?thesis
    unfolding py_round_def Let_def by auto
qed


lemma py_round_half: "py_round (real_of_int n + 1 / 2) = (if even n then n else n + 1)"
proof -
  have "\<lfloor>real_of_int n + 1 / 2\<rfloor> = n" by linarith
  then show ?thesis by (simp add: py_round_def Let_def)
qed


lemma ulp_pos: "0 < ulp x"
  by (simp add: ulp_def)

lemma bexp_eqI:
  assumes "2 powr real_of_int e \<le> \<bar>x\<bar>" and "\<bar>x\<bar> < 2 powr real_of_int (e + 1)"
  shows "bexp x = e"
proof -
  have "0 < \<bar>x\<bar>" using assms(1) by (smt (verit) powr_gt_zero)
  then show ?thesis
    unfolding bexp_def using assms floor_log_eq_powr_iff [of "\<bar>x\<bar>" 2 e] by simp
qed

lemma bexp_bounds:
  assumes "x \<noteq> 0"
  shows "2 powr real_of_int (bexp x) \<le> \<bar>x\<bar>" and "\<bar>x\<bar> < 2 powr real_of_int (bexp x + 1)"
  using assms floor_log_eq_powr_iff [of "\<bar>x\<bar>" 2 "bexp x"] by (simp_all add: bexp_def)

lemma two_powr_int_add: "2 powr real_of_int (a + b) = 2 powr real_of_int a * 2 powr real_of_int b"
  by (simp add: powr_add)

lemma two_powr_nat: "0 \<le> j \<Longrightarrow> 2 powr real_of_int j = real_of_int (2 ^ nat j)"
  using powr_realpow [of 2 "nat j"] by simp

lemma two_powr_neg: "j \<le> 0 \<Longrightarrow> 2 powr real_of_int j = 1 / 2 ^ nat (- j)"
  using powr_realpow [of 2 "nat (- j)"] powr_minus_divide [of 2 "real_of_int (- j)"] by simp




lemma rnd_zero: "rnd 0 = 0"
  by (simp add: rnd_def)



lemma rnd_error: "\<bar>rnd x - x\<bar> \<le> ulp x / 2"
proof (cases "x = 0")
  case True
  then show ?thesis using ulp_pos [of x] by (simp add: rnd_def)
next
  case False
  define u where "u = ulp x"
  have u: "0 < u" by (simp add: u_def ulp_pos)
  define k where "k = py_round (x / u)"
  have "real_of_int k \<le> x / u + 1 / 2" and "x / u - 1 / 2 \<le> real_of_int k"
    unfolding k_def by (rule py_round_upper, rule py_round_lower)
  then have "real_of_int k * u \<le> x + u / 2" and "x - u / 2 \<le> real_of_int k * u"
    using u by (simp_all add: field_simps)
  then have "\<bar>real_of_int k * u - x\<bar> \<le> u / 2" by linarith
  then show ?thesis
    using False by (simp add: rnd_def u_def [symmetric] k_def [symmetric])
qed






lemma bexp_le:
  assumes "x \<noteq> 0" and "\<bar>x\<bar> < 2 powr real_of_int n"
  shows "bexp x < n"
proof -
  have "2 powr real_of_int (bexp x) < 2 powr real_of_int n"
    using bexp_bounds(1) [OF assms(1)] assms(2) by linarith
  then show ?thesis by simp
qed

lemma rnd_exact:
  assumes x: "x = real_of_int k * 2 powr real_of_int e"
    and k: "\<bar>k\<bar> < 2 ^ 53" and e: "- 1074 \<le> e"
  shows "rnd x = x"
proof (cases "x = 0")
  case True
  then show ?thesis by (simp add: rnd_def)
next
  case False
  have "\<bar>x\<bar> = real_of_int \<bar>k\<bar> * 2 powr real_of_int e"
    by (simp add: x abs_mult)
  also have "\<dots> < real_of_int (2 ^ 53) * 2 powr real_of_int e"
    using k by (intro mult_strict_right_mono) simp_all
  also have "\<dots> = 2 powr real_of_int (53 + e)"
    using two_powr_int_add [of 53 e] two_powr_nat [of 53] by simp
  finally have "bexp x < 53 + e"
    using bexp_le [OF False] by simp
  then have ue: "max (bexp x) (- 1022) - 52 \<le> e"
    using e by simp
  define d where "d = e - (max (bexp x) (- 1022) - 52)"
  define u where "u = ulp x"
  have u: "0 < u" by (simp add: u_def ulp_pos)
  have d: "0 \<le> d" using ue by (simp add: d_def)
  have "2 powr real_of_int e = 2 powr real_of_int d * u"
    using two_powr_int_add [of d "max (bexp x) (- 1022) - 52"]
    by (simp add: d_def ulp_def u_def)
  then have "x = (real_of_int k * 2 powr real_of_int d) * u"
    by (simp add: x)
  then have "x / u = real_of_int k * 2 powr real_of_int d"
    using u by simp
  also have "\<dots> = real_of_int (k * 2 ^ nat d)"
    using two_powr_nat [OF d] by simp
  finally have q: "x / u = real_of_int (k * 2 ^ nat d)" .
  have "py_round (x / u) = k * 2 ^ nat d"
    unfolding q by (rule py_round_of_int)
  then have "rnd x = real_of_int (k * 2 ^ nat d) * u"
    using False by (simp add: rnd_def u_def)
  also have "\<dots> = x / u * u"
    by (simp only: q)
  finally show ?thesis using u by simp
qed

lemma rnd_of_int:
  assumes "\<bar>n\<bar> < 2 ^ 53"
  shows "rnd (real_of_int n) = real_of_int n"
  using rnd_exact [of "real_of_int n" n 0] assms by simp

lemma rnd_ulp_bound:
  assumes "x \<noteq> 0"
  shows "\<bar>x\<bar> / ulp x < 2 ^ 53"
proof -
  have "\<bar>x\<bar> < 2 powr real_of_int (bexp x + 1)"
    by (rule bexp_bounds(2) [OF assms])
  also have "\<dots> \<le> 2 powr real_of_int (max (bexp x) (- 1022) + 1)"
    by simp
  also have "\<dots> = 2 powr real_of_int 53 * ulp x"
    using two_powr_int_add [of 53 "max (bexp x) (- 1022) - 52"]
    by (simp add: ulp_def add.commute)
  also have "2 powr real_of_int 53 = 2 ^ 53"
    using two_powr_nat [of 53] by simp
  finally show ?thesis
    using ulp_pos [of x] by (simp add: field_simps)
qed

lemma rnd_idem: "rnd (rnd x) = rnd x"
proof (cases "x = 0")
  case True
  then show ?thesis by (simp add: rnd_def)
next
  case False
  define K where "K = py_round (x / ulp x)"
  define ue where "ue = max (bexp x) (- 1022) - 52"
  have u: "ulp x = 2 powr real_of_int ue" by (simp add: ulp_def ue_def)
  have ue: "- 1074 \<le> ue" by (simp add: ue_def)
  have r: "rnd x = real_of_int K * 2 powr real_of_int ue"
    using False by (simp add: rnd_def K_def u)
  have b: "\<bar>x\<bar> / ulp x < 2 ^ 53"
    by (rule rnd_ulp_bound [OF False])
  have "x / ulp x \<le> \<bar>x\<bar> / ulp x" and "- \<bar>x\<bar> / ulp x \<le> x / ulp x"
    using ulp_pos [of x] by (simp_all add: field_simps)
  with b have b1: "x / ulp x \<le> real_of_int (2 ^ 53)"
    and b2: "real_of_int (- (2 ^ 53)) \<le> x / ulp x"
    by simp_all
  have Kb: "K \<le> 2 ^ 53" "- (2 ^ 53) \<le> K"
    unfolding K_def using py_round_le_int [OF b1] py_round_ge_int [OF b2] by simp_all
  consider "\<bar>K\<bar> < 2 ^ 53" | "K = 2 ^ 53" | "K = - (2 ^ 53)"
    using Kb by linarith
  then show ?thesis
  proof cases
    case 1
    then show ?thesis using rnd_exact [OF r _ ue] by simp
  next
    case 2
    have "rnd x = real_of_int (2 ^ 52) * 2 powr real_of_int (ue + 1)"
      using two_powr_int_add [of ue 1] by (simp add: r 2)
    then show ?thesis
      using rnd_exact [of "rnd x" "2 ^ 52" "ue + 1"] ue by simp
  next
    case 3
    have "rnd x = real_of_int (- (2 ^ 52)) * 2 powr real_of_int (ue + 1)"
      using two_powr_int_add [of ue 1] by (simp add: r 3)
    then show ?thesis
      using rnd_exact [of "rnd x" "- (2 ^ 52)" "ue + 1"] ue by simp
  qed
qed

lemma rnd_abs_error:
  assumes "\<bar>x\<bar> \<le> 2 powr real_of_int n" and "- 1022 \<le> n"
  shows "\<bar>rnd x - x\<bar> \<le> 2 powr real_of_int (n - 53)"
proof (cases "x = 0")
  case True
  then show ?thesis by (simp add: rnd_def)
next
  case False
  have "2 powr real_of_int (bexp x) \<le> 2 powr real_of_int n"
    using bexp_bounds(1) [OF False] assms(1) by linarith
  then have "bexp x \<le> n" by simp
  then have "max (bexp x) (- 1022) - 52 \<le> n - 52"
    using assms(2) by simp
  then have "ulp x \<le> 2 powr real_of_int (n - 52)"
    unfolding ulp_def by (simp del: of_int_diff)
  also have "\<dots> = 2 * 2 powr real_of_int (n - 53)"
    using two_powr_int_add [of 1 "n - 53"] by simp
  finally show ?thesis
    using rnd_error [of x] by simp
qed

lemma rnd_eqI:
  assumes lo: "2 powr real_of_int (e + 52) \<le> \<bar>x\<bar>" and hi: "\<bar>x\<bar> < 2 powr real_of_int (e + 53)"
    and e: "- 1074 \<le> e"
    and k1: "real_of_int k - 1 / 2 < x / 2 powr real_of_int e"
    and k2: "x / 2 powr real_of_int e < real_of_int k + 1 / 2"
  shows "rnd x = real_of_int k * 2 powr real_of_int e"
proof -
  have "bexp x = e + 52"
    using lo hi by (intro bexp_eqI) (simp_all add: add.commute add.left_commute)
  then have u: "ulp x = 2 powr real_of_int e"
    using e by (simp add: ulp_def)
  have "x \<noteq> 0" using lo by (smt (verit) powr_gt_zero)
  moreover have "py_round (x / 2 powr real_of_int e) = k"
    using k1 k2 by (rule py_round_eqI)
  ultimately show ?thesis by (simp add: rnd_def u)
qed

lemma round2_eqI:
  assumes "real_of_int n - 1 / 2 < x * 100" and "x * 100 < real_of_int n + 1 / 2"
  shows "round2 x = real_of_int n / 100"
  using py_round_eqI [OF assms] by (simp add: round2_def)

subsection \<open>Evaluations used below\<close>

lemma hits_bug_4949: "hits_bug 49.49"
proof -
  have "py_round (49.49 * 100) = 4949"
    using py_round_of_int [of 4949] by simp
  then show ?thesis by (simp add: hits_bug_def)
qed

lemma rule_estimate_5_0_0: "calculate_reimbursement 5 0 0 = Inr 497.66"
proof -
  have eb: "eff_bonus 5 0 = Inr (5520 / 169)"
    by (simp add: eff_bonus_def Let_def C_defs power2_eq_square)
  have nb: "\<not> hits_bug 0"
    by (simp add: hits_bug_def py_round_def)
  have rd: "round2 (84105 / 169) = 49766 / 100"
    using round2_eqI [of 49766 "84105 / 169"] by simp
  show ?thesis
    using rd
    by (simp add: calculate_reimbursement_def eb nb long_fac_def mile_delta_def
        rec_comp_def rec_1_6_def low_mile_penalty_def fortnight_adj_def Let_def C_defs)
qed

lemma total_before_bug_2_50_4949: "total_before_bug 2 50 49.49 = Inr (9958443 / 84500)"
proof -
  have eb: "eff_bonus 2 50 = Inr (7395 / 169)"
    by (simp add: eff_bonus_def Let_def C_defs power2_eq_square)
  show ?thesis
    by (simp add: total_before_bug_def eb long_fac_def mile_delta_def
        rec_comp_def rec_1_6_def low_mile_penalty_def fortnight_adj_def Let_def C_defs)
qed

lemma rule_estimate_2_50_4949: "calculate_reimbursement 2 50 49.49 = Inr 70.71"
proof -
  have eb: "eff_bonus 2 50 = Inr (7395 / 169)"
    by (simp add: eff_bonus_def Let_def C_defs power2_eq_square)
  have rd: "round2 (9958443 / 84500 * (60 / 100)) = 7071 / 100"
    using round2_eqI [of 7071 "9958443 / 84500 * (60 / 100)"] by simp
  have "calculate_reimbursement 2 50 49.49 = Inr (round2 (9958443 / 84500 * (60 / 100)))"
    using hits_bug_4949
    by (simp add: calculate_reimbursement_def eb long_fac_def mile_delta_def
        rec_comp_def rec_1_6_def low_mile_penalty_def fortnight_adj_def Let_def C_defs)
  then show ?thesis
    by (simp only: rd) simp
qed

lemma rec_comp_7_10000: "rec_comp 7 10000 = -2451"
  by (simp add: rec_comp_def rec_7_plus_def Let_def C_defs)

lemma rec_comp_7_2100: "rec_comp 7 2100 = 630"
  by (simp add: rec_comp_def rec_7_plus_def Let_def C_defs)

subsection \<open>The rule engine\<close>

text \<open>
  C5. The rule engine applied to days = 5, miles = 0, receipts = 0 returns exactly 497.66
  with the reference constants.
\<close>

theorem scenario_five_days_idle:
  "calculate_reimbursement 5 0 0 = Inr 497.66"
  by (rule rule_estimate_5_0_0)

text \<open>
  C6. The rule engine applied to days = 2, miles = 50, receipts = 49.49 does not return 70.69.
\<close>

theorem scenario_bug_two_days_refuted:
  "calculate_reimbursement 2 50 49.49 \<noteq> Inr 70.69"
  using rule_estimate_2_50_4949 by simp

text \<open>
  C6, as amended. The rule engine applied to days = 2, miles = 50, receipts = 49.49 applies the bug
  multiplier to the running total 9958443/84500 (about 117.85) and returns exactly 70.71.
\<close>

theorem scenario_bug_two_days:
  "hits_bug 49.49 \<and>
   total_before_bug 2 50 49.49 = Inr (9958443 / 84500) \<and>
   calculate_reimbursement 2 50 49.49 = Inr 70.71"
  using hits_bug_4949 total_before_bug_2_50_4949 rule_estimate_2_50_4949 by simp

text \<open>
  C7. For all days from 7 on and all receipts that are not negative, the receipt component is
  0.45 * min(receipts, 150 * days) + 0.15 * max(0, min(receipts - 150 * days, 150 * days))
  - (0.25 + 0.02 * days) * max(0, receipts - 300 * days), and for some such days and receipts
  it is strictly negative: there is no floor at zero.
\<close>

theorem rec_comp_long_trip:
  assumes "7 \<le> d" and "0 \<le> r"
  shows "rec_comp d r =
           0.45 * min r (150 * real_of_int d)
           + 0.15 * max 0 (min (r - 150 * real_of_int d) (150 * real_of_int d))
           - (0.25 + 0.02 * real_of_int d) * max 0 (r - 300 * real_of_int d)
         \<and> (\<exists>d' r'. 7 \<le> d' \<and> 0 \<le> r' \<and> rec_comp d' r' < 0)"
proof
  from assms(1) have "\<not> d \<le> 2" and "\<not> d \<le> 6" by simp_all
  then show "rec_comp d r =
           0.45 * min r (150 * real_of_int d)
           + 0.15 * max 0 (min (r - 150 * real_of_int d) (150 * real_of_int d))
           - (0.25 + 0.02 * real_of_int d) * max 0 (r - 300 * real_of_int d)"
    by (simp add: rec_comp_def rec_7_plus_def Let_def C_defs)
next
  have "(7::int) \<le> 7 \<and> (0::real) \<le> 10000 \<and> rec_comp 7 10000 < 0"
    by (simp add: rec_comp_7_10000)
  then show "\<exists>d' r'. 7 \<le> d' \<and> 0 \<le> r' \<and> rec_comp d' r' < 0"
    by blast
qed

theorem rec_comp_long_trip_witness:
  "(7::int) \<le> 7 \<and> (0::real) \<le> 10000 \<and>
   rec_comp 7 10000 = 0.45 * min 10000 (150 * 7) + 0.15 * max 0 (min (10000 - 150 * 7) (150 * 7))
                      - (0.25 + 0.02 * 7) * max 0 (10000 - 300 * 7) \<and>
   rec_comp 7 10000 = -2451"
  using rec_comp_long_trip [of 7 10000] by simp

lemma first_tier_above_100:
  assumes "100 < m"
  shows "first_tier (zip lims M_DELTA) m \<in> {Some (-25), Some 21, Some 254, None}"
  using assms by (simp add: lims_def M_DELTA_def)

text \<open>
  C9. For all days from 1 on and all miles that are not negative, the mileage tier adjustment
  is never -261, the first entry of the delta table: up to 100 miles it is one of the flat
  deltas 0, -150, -100, -50, and above 100 miles it is one of -25, 21, 254, 314.
\<close>

theorem mile_delta_first_entry_unreachable:
  assumes "1 \<le> d" and "0 \<le> m"
  shows "M_DELTA ! 0 = -261 \<and> mile_delta d m \<noteq> -261
         \<and> (m \<le> 100 \<longrightarrow> mile_delta d m \<in> {0, -150, -100, -50})
         \<and> (100 < m \<longrightarrow> mile_delta d m \<in> {-25, 21, 254, 314})"
proof (cases "m \<le> 100")
  case True
  then show ?thesis
    by (simp add: mile_delta_def M_DELTA_def)
next
  case False
  then have "100 < m" by simp
  from first_tier_above_100 [OF this] False show ?thesis
    by (auto simp: mile_delta_def M_DELTA_def)
qed

theorem mile_delta_first_entry_unreachable_witness:
  "(1::int) \<le> 2 \<and> (0::real) \<le> 101 \<and> mile_delta 2 101 = -25 \<and> mile_delta 2 100 = -150"
proof -
  have "mile_delta 2 101 = -25" and "mile_delta 2 100 = -150"
    by (simp_all add: mile_delta_def lims_def M_DELTA_def)
  then show ?thesis
    using mile_delta_first_entry_unreachable [of 2 101] by simp
qed

lemma rec_1_6_mono:
  assumes "0 \<le> low" and "0 \<le> hi" and "r1 \<le> r2"
  shows "rec_1_6 d r1 low hi knee_pd \<le> rec_1_6 d r2 low hi knee_pd"
proof -
  define knee where "knee = knee_pd * real_of_int d"
  consider "r2 \<le> knee" | "r1 \<le> knee" "knee < r2" | "knee < r1"
    by linarith
  then show ?thesis
  proof cases
    case 1
    with assms show ?thesis
      by (simp add: rec_1_6_def Let_def knee_def [symmetric] mult_left_mono)
  next
    case 2
    from 2 assms(1) have "low * r1 \<le> low * knee" by (simp add: mult_left_mono)
    moreover from 2 assms(2) have "0 \<le> hi * (r2 - knee)" by simp
    ultimately show ?thesis
      using 2 by (simp add: rec_1_6_def Let_def knee_def [symmetric])
  next
    case 3
    with assms(3) have "knee < r2" by simp
    moreover from assms(2,3) have "hi * (r1 - knee) \<le> hi * (r2 - knee)"
      by (simp add: mult_left_mono)
    ultimately show ?thesis
      using 3 by (simp add: rec_1_6_def Let_def knee_def [symmetric])
  qed
qed

text \<open>
  C10. For all days from 1 to 6, the receipt component does not decrease when the receipts grow:
  for 0 <= r1 <= r2, rec_comp(days, r1) <= rec_comp(days, r2). In the long-trip regime it
  can decrease.
\<close>

theorem rec_comp_short_mid_monotone:
  assumes "1 \<le> d" and "d \<le> 6" and "0 \<le> r1" and "r1 \<le> r2"
  shows "rec_comp d r1 \<le> rec_comp d r2
         \<and> (\<exists>d' s1 s2. 7 \<le> d' \<and> 0 \<le> s1 \<and> s1 \<le> s2 \<and> rec_comp d' s2 < rec_comp d' s1)"
proof
  show "rec_comp d r1 \<le> rec_comp d r2"
    using assms(2) rec_1_6_mono [OF _ _ assms(4)]
    by (simp add: rec_comp_def C_defs)
next
  have "(7::int) \<le> 7 \<and> (0::real) \<le> 2100 \<and> (2100::real) \<le> 10000
        \<and> rec_comp 7 10000 < rec_comp 7 2100"
    by (simp add: rec_comp_7_10000 rec_comp_7_2100)
  then show "\<exists>d' s1 s2. 7 \<le> d' \<and> 0 \<le> s1 \<and> s1 \<le> s2 \<and> rec_comp d' s2 < rec_comp d' s1"
    by blast
qed

theorem rec_comp_short_mid_monotone_witness:
  "(1::int) \<le> 3 \<and> (3::int) \<le> 6 \<and> (0::real) \<le> 2000 \<and> (2000::real) \<le> 4000 \<and>
   rec_comp 3 2000 = 900 \<and> rec_comp 3 4000 = 1500 \<and> rec_comp 3 2000 \<le> rec_comp 3 4000"
proof -
  have "rec_comp 3 2000 = 900" and "rec_comp 3 4000 = 1500"
    by (simp_all add: rec_comp_def rec_1_6_def Let_def C_defs)
  then show ?thesis
    using rec_comp_short_mid_monotone [of 3 2000 4000] by simp
qed

subsection \<open>Evaluating binary64 operations\<close>

lemma round_double_Fin:
  assumes "\<bar>rnd x\<bar> < 2 ^ 1024"
  shows "round_double x = Fin (rnd x)"
  using assms by (simp add: round_double_def Let_def abs_less_iff not_le)

lemma round_double_evalI:
  fixes n :: nat
  assumes y: "y * 2 ^ n = real_of_int k" and k1: "2 ^ 52 \<le> \<bar>k\<bar>" and k2: "\<bar>k\<bar> < 2 ^ 53"
    and n: "n \<le> 1074"
    and x1: "2 ^ 52 \<le> \<bar>x\<bar> * 2 ^ n" and x2: "\<bar>x\<bar> * 2 ^ n < 2 ^ 53"
    and c: "\<bar>x - y\<bar> * 2 ^ (n + 1) < 1"
  shows "round_double x = Fin y"
proof -
  define e where "e = - int n"
  have p: "2 powr real_of_int e = 1 / 2 ^ n"
    using two_powr_neg [of e] by (simp add: e_def)
  have p52: "2 powr real_of_int (e + 52) = 2 ^ 52 / 2 ^ n"
    using two_powr_int_add [of e 52] two_powr_nat [of 52] by (simp add: p)
  have p53: "2 powr real_of_int (e + 53) = 2 ^ 53 / 2 ^ n"
    using two_powr_int_add [of e 53] two_powr_nat [of 53] by (simp add: p)
  have yk: "y = real_of_int k / 2 ^ n"
    using y by (simp add: field_simps)
  have "\<bar>x * 2 ^ n - real_of_int k\<bar> = \<bar>x - y\<bar> * 2 ^ n"
    by (simp add: yk abs_mult [symmetric] field_simps)
  also have "\<dots> < 1 / 2" using c by simp
  finally have "\<bar>x * 2 ^ n - real_of_int k\<bar> < 1 / 2" .
  then have close: "real_of_int k - 1 / 2 < x * 2 ^ n" "x * 2 ^ n < real_of_int k + 1 / 2"
    by linarith+
  have "rnd x = real_of_int k * 2 powr real_of_int e"
  proof (rule rnd_eqI)
    show "2 powr real_of_int (e + 52) \<le> \<bar>x\<bar>"
      unfolding p52 using x1 by (simp add: field_simps)
    show "\<bar>x\<bar> < 2 powr real_of_int (e + 53)"
      unfolding p53 using x2 by (simp add: field_simps)
    show "- 1074 \<le> e" using n by (simp add: e_def)
    show "real_of_int k - 1 / 2 < x / 2 powr real_of_int e"
      using close by (simp add: p)
    show "x / 2 powr real_of_int e < real_of_int k + 1 / 2"
      using close by (simp add: p)
  qed
  then have r: "rnd x = y" by (simp add: p yk)
  have "\<bar>y\<bar> < 2 ^ 53"
  proof -
    have "\<bar>y\<bar> = real_of_int \<bar>k\<bar> / 2 ^ n" by (simp add: yk)
    also have "\<dots> \<le> real_of_int \<bar>k\<bar>" by (simp add: field_simps mult_le_cancel_left1)
    also have "\<dots> < 2 ^ 53" using k2 by simp
    finally show ?thesis .
  qed
  also have "(2::real) ^ 53 \<le> 2 ^ 1024" by (intro power_increasing) simp_all
  finally have "\<bar>rnd x\<bar> < 2 ^ 1024" by (simp add: r)
  then show ?thesis using round_double_Fin [of x] by (simp add: r)
qed

lemma round_double_exactI:
  fixes n :: nat
  assumes x: "x * 2 ^ n = real_of_int k" and k: "\<bar>k\<bar> < 2 ^ 53" and n: "n \<le> 1074"
  shows "round_double x = Fin x"
proof -
  define e where "e = - int n"
  have p: "2 powr real_of_int e = 1 / 2 ^ n"
    using two_powr_neg [of e] by (simp add: e_def)
  have xk: "x = real_of_int k * 2 powr real_of_int e"
    using x by (simp add: p field_simps)
  have r: "rnd x = x"
    using xk k by (rule rnd_exact) (use n in \<open>simp add: e_def\<close>)
  have "\<bar>x * 2 ^ n\<bar> = \<bar>real_of_int k\<bar>" by (simp only: x)
  then have "\<bar>x\<bar> = real_of_int \<bar>k\<bar> / 2 ^ n" by (simp add: field_simps abs_mult)
  also have "\<dots> \<le> real_of_int \<bar>k\<bar>" by (simp add: field_simps mult_le_cancel_left1)
  also have "\<dots> < 2 ^ 53" using k by simp
  also have "(2::real) ^ 53 \<le> 2 ^ 1024" by (intro power_increasing) simp_all
  finally have "\<bar>rnd x\<bar> < 2 ^ 1024" by (simp add: r)
  then show ?thesis using round_double_Fin [of x] by (simp add: r)
qed

lemma rnd_of_round_double: "round_double x = Fin y \<Longrightarrow> rnd x = y"
  by (simp add: round_double_def Let_def split: if_splits)

lemma round_double_tieI:
  fixes n :: nat
  assumes y: "y * 2 ^ n = real_of_int k" and k1: "2 ^ 52 \<le> \<bar>k\<bar>" and k2: "\<bar>k\<bar> < 2 ^ 53"
    and ev: "even k" and n: "n \<le> 1074"
    and x1: "2 ^ 52 \<le> \<bar>x\<bar> * 2 ^ n" and x2: "\<bar>x\<bar> * 2 ^ n < 2 ^ 53"
    and c: "x * 2 ^ n = real_of_int k + 1 / 2 \<or> x * 2 ^ n = real_of_int k - 1 / 2"
  shows "round_double x = Fin y"
proof -
  define e where "e = - int n"
  have p: "2 powr real_of_int e = 1 / 2 ^ n"
    using two_powr_neg [of e] by (simp add: e_def)
  have p52: "2 powr real_of_int (e + 52) = 2 ^ 52 / 2 ^ n"
    using two_powr_int_add [of e 52] two_powr_nat [of 52] by (simp add: p)
  have p53: "2 powr real_of_int (e + 53) = 2 ^ 53 / 2 ^ n"
    using two_powr_int_add [of e 53] two_powr_nat [of 53] by (simp add: p)
  have yk: "y = real_of_int k / 2 ^ n"
    using y by (simp add: field_simps)
  have pr: "py_round (x * 2 ^ n) = k"
  proof -
    from c show ?thesis
    proof
      assume "x * 2 ^ n = real_of_int k + 1 / 2"
      then show ?thesis using py_round_half [of k] ev by simp
    next
      assume "x * 2 ^ n = real_of_int k - 1 / 2"
      then have "x * 2 ^ n = real_of_int (k - 1) + 1 / 2" by simp
      then have "py_round (x * 2 ^ n) = (if even (k - 1) then k - 1 else k - 1 + 1)"
        by (simp only: py_round_half)
      then show ?thesis using ev by simp
    qed
  qed
  have "bexp x = e + 52"
  proof (rule bexp_eqI)
    show "2 powr real_of_int (e + 52) \<le> \<bar>x\<bar>"
      unfolding p52 using x1 by (simp add: field_simps)
    have "\<bar>x\<bar> < 2 powr real_of_int (e + 53)"
      unfolding p53 using x2 by (simp add: field_simps)
    then show "\<bar>x\<bar> < 2 powr real_of_int (e + 52 + 1)"
      by (simp add: add.commute add.left_commute)
  qed
  then have u: "ulp x = 2 powr real_of_int e"
    using n by (simp add: ulp_def e_def)
  have "x \<noteq> 0" using x1 by auto
  then have r: "rnd x = y"
    using pr by (simp add: rnd_def u p yk)
  have "\<bar>y\<bar> = real_of_int \<bar>k\<bar> / 2 ^ n" by (simp add: yk)
  also have "\<dots> \<le> real_of_int \<bar>k\<bar>" by (simp add: field_simps mult_le_cancel_left1)
  also have "\<dots> < 2 ^ 53" using k2 by simp
  also have "(2::real) ^ 53 \<le> 2 ^ 1024" by (intro power_increasing) simp_all
  finally have "\<bar>rnd x\<bar> < 2 ^ 1024" by (simp add: r)
  then show ?thesis using round_double_Fin [of x] by (simp add: r)
qed



lemma running_total_b64_5_0_0: "running_total_b64 5 (Fin 0) (Fin 0) = Inr (Fin (2188743797730189 / 4398046511104))"
proof -
  have e1: "round_double 5 = Fin 5"
    using round_double_exactI [of "5" 0 "5"] by simp
  have e2: "rnd (486 / 5) = (6839841934068941 / 70368744177664)"
    by (rule rnd_of_round_double) (use round_double_evalI [of "(6839841934068941 / 70368744177664)" 46 "6839841934068941" "(486 / 5)"] in simp)
  have e3: "round_double (34199209670344705 / 70368744177664) = Fin 486"
    using round_double_evalI [of "486" 44 "8549802417586176" "(34199209670344705 / 70368744177664)"] by simp
  have e4: "round_double 486 = Fin 486"
    using round_double_exactI [of "486" 0 "486"] by simp
  have e5: "round_double 386 = Fin 386"
    using round_double_exactI [of "386" 0 "386"] by simp
  have e6: "rnd (9 / 20) = (8106479329266893 / 18014398509481984)"
    by (rule rnd_of_round_double) (use round_double_evalI [of "(8106479329266893 / 18014398509481984)" 54 "8106479329266893" "(9 / 20)"] in simp)
  have e7: "rnd (3 / 20) = (5404319552844595 / 36028797018963968)"
    by (rule rnd_of_round_double) (use round_double_evalI [of "(5404319552844595 / 36028797018963968)" 55 "5404319552844595" "(3 / 20)"] in simp)
  have e8: "rnd 1000 = 1000"
    by (rule rnd_of_round_double) (use round_double_exactI [of "1000" 0 "1000"] in simp)
  have e9: "round_double 5000 = Fin 5000"
    using round_double_exactI [of "5000" 0 "5000"] by simp
  have e10: "round_double 0 = Fin 0"
    using round_double_exactI [of "0" 0 "0"] by simp
  have e11: "rnd 200 = 200"
    by (rule rnd_of_round_double) (use round_double_exactI [of "200" 0 "200"] in simp)
  have e12: "round_double (- 200) = Fin (- 200)"
    using round_double_exactI [of "(- 200)" 0 "(- 200)"] by simp
  have e13: "rnd 260 = 260"
    by (rule rnd_of_round_double) (use round_double_exactI [of "260" 0 "260"] in simp)
  have e14: "round_double (- (10 / 13)) = Fin (- (6928614811339225 / 9007199254740992))"
    using round_double_evalI [of "(- (6928614811339225 / 9007199254740992))" 53 "(- 6928614811339225)" "(- (10 / 13))"] by simp
  have e15: "round_double (48005703203909284439638023600625 / 81129638414606681695789005144064) = Fin (5329703701030173 / 9007199254740992)"
    using round_double_evalI [of "(5329703701030173 / 9007199254740992)" 53 "5329703701030173" "(48005703203909284439638023600625 / 81129638414606681695789005144064)"] by simp
  have e16: "round_double (3677495553710819 / 9007199254740992) = Fin (3677495553710819 / 9007199254740992)"
    using round_double_exactI [of "(3677495553710819 / 9007199254740992)" 53 "3677495553710819"] by simp
  have e17: "round_double (18387477768554095 / 562949953421312) = Fin (1149217360534631 / 35184372088832)"
    using round_double_evalI [of "(1149217360534631 / 35184372088832)" 47 "4596869442138524" "(18387477768554095 / 562949953421312)"] by simp
  have e18: "round_double (14730384986823783 / 35184372088832) = Fin (1841298123352973 / 4398046511104)"
    using round_double_tieI [of "(1841298123352973 / 4398046511104)" 44 "7365192493411892" "(14730384986823783 / 35184372088832)"] by simp
  have e19: "rnd 79 = 79"
    by (rule rnd_of_round_double) (use round_double_exactI [of "79" 0 "79"] in simp)
  have e20: "round_double (2188743797730189 / 4398046511104) = Fin (2188743797730189 / 4398046511104)"
    using round_double_exactI [of "(2188743797730189 / 4398046511104)" 42 "2188743797730189"] by simp
  have e21: "rnd 1720 = 1720"
    by (rule rnd_of_round_double) (use round_double_exactI [of "1720" 0 "1720"] in simp)
  show ?thesis
    by (simp add: running_total_b64_def calculate_reimbursement_b64_def bug_and_round_b64_def hits_bug_b64_def eff_bonus_b64_def rec_comp_b64_def rec_1_6_b64_def low_mile_penalty_b64_def fortnight_adj_b64_def mile_delta_b64_def long_fac_b64_def lims_def to_float_def lit_def fsub_def pymax_def pymin_def flt_def Let_def C_defs e1 e2 e3 e4 e5 e6 e7 e8 e9 e10 e11 e12 e13 e14 e15 e16 e17 e18 e19 e20 e21)
qed


lemma rule_estimate_b64_1_0_sixteenth: "calculate_reimbursement_b64 1 (Fin 0) (Fin (1 / 16)) = Inr (Fin (4570449934339277 / 35184372088832))"
proof -
  have e1: "round_double 1 = Fin 1"
    using round_double_exactI [of "1" 0 "1"] by simp
  have e2: "rnd (486 / 5) = (6839841934068941 / 70368744177664)"
    by (rule rnd_of_round_double) (use round_double_evalI [of "(6839841934068941 / 70368744177664)" 46 "6839841934068941" "(486 / 5)"] in simp)
  have e3: "round_double (6839841934068941 / 70368744177664) = Fin (6839841934068941 / 70368744177664)"
    using round_double_exactI [of "(6839841934068941 / 70368744177664)" 46 "6839841934068941"] by simp
  have e4: "rnd (3 / 5) = (5404319552844595 / 9007199254740992)"
    by (rule rnd_of_round_double) (use round_double_evalI [of "(5404319552844595 / 9007199254740992)" 53 "5404319552844595" "(3 / 5)"] in simp)
  have e5: "rnd (3 / 20) = (5404319552844595 / 36028797018963968)"
    by (rule rnd_of_round_double) (use round_double_evalI [of "(5404319552844595 / 36028797018963968)" 55 "5404319552844595" "(3 / 20)"] in simp)
  have e6: "rnd 1000 = 1000"
    by (rule rnd_of_round_double) (use round_double_exactI [of "1000" 0 "1000"] in simp)
  have e7: "round_double 1000 = Fin 1000"
    using round_double_exactI [of "1000" 0 "1000"] by simp
  have e8: "round_double (5404319552844595 / 144115188075855872) = Fin (5404319552844595 / 144115188075855872)"
    using round_double_exactI [of "(5404319552844595 / 144115188075855872)" 57 "5404319552844595"] by simp
  have e9: "round_double (14013400600526035763 / 144115188075855872) = Fin (6842480761975603 / 70368744177664)"
    using round_double_evalI [of "(6842480761975603 / 70368744177664)" 46 "6842480761975603" "(14013400600526035763 / 144115188075855872)"] by simp
  have e10: "round_double 0 = Fin 0"
    using round_double_exactI [of "0" 0 "0"] by simp
  have e11: "rnd 200 = 200"
    by (rule rnd_of_round_double) (use round_double_exactI [of "200" 0 "200"] in simp)
  have e12: "round_double (- 200) = Fin (- 200)"
    using round_double_exactI [of "(- 200)" 0 "(- 200)"] by simp
  have e13: "rnd 260 = 260"
    by (rule rnd_of_round_double) (use round_double_exactI [of "260" 0 "260"] in simp)
  have e14: "round_double (- (10 / 13)) = Fin (- (6928614811339225 / 9007199254740992))"
    using round_double_evalI [of "(- (6928614811339225 / 9007199254740992))" 53 "(- 6928614811339225)" "(- (10 / 13))"] by simp
  have e15: "round_double (48005703203909284439638023600625 / 81129638414606681695789005144064) = Fin (5329703701030173 / 9007199254740992)"
    using round_double_evalI [of "(5329703701030173 / 9007199254740992)" 53 "5329703701030173" "(48005703203909284439638023600625 / 81129638414606681695789005144064)"] by simp
  have e16: "round_double (3677495553710819 / 9007199254740992) = Fin (3677495553710819 / 9007199254740992)"
    using round_double_exactI [of "(3677495553710819 / 9007199254740992)" 53 "3677495553710819"] by simp
  have e17: "round_double (18387477768554095 / 562949953421312) = Fin (1149217360534631 / 35184372088832)"
    using round_double_evalI [of "(1149217360534631 / 35184372088832)" 47 "4596869442138524" "(18387477768554095 / 562949953421312)"] by simp
  have e18: "round_double (9140915483044865 / 70368744177664) = Fin (8926675276411 / 68719476736)"
    using round_double_tieI [of "(8926675276411 / 68719476736)" 45 "4570457741522432" "(9140915483044865 / 70368744177664)"] by simp
  have e19: "round_double (8926675276411 / 68719476736) = Fin (8926675276411 / 68719476736)"
    using round_double_exactI [of "(8926675276411 / 68719476736)" 36 "8926675276411"] by simp
  have e20: "round_double (1 / 16) = Fin (1 / 16)"
    using round_double_exactI [of "(1 / 16)" 4 "1"] by simp
  have e21: "round_double (25 / 4) = Fin (25 / 4)"
    using round_double_exactI [of "(25 / 4)" 2 "25"] by simp
  have e22: "py_round (25 / 4) = 6"
    using py_round_eqI [of "6" "(25 / 4)"] by simp
  have e23: "py_round (223166881910275 / 17179869184) = 12990"
    using py_round_eqI [of "12990" "(223166881910275 / 17179869184)"] by simp
  have e24: "round_double (1299 / 10) = Fin (4570449934339277 / 35184372088832)"
    using round_double_evalI [of "(4570449934339277 / 35184372088832)" 45 "4570449934339277" "(1299 / 10)"] by simp
  show ?thesis
    by (simp add: running_total_b64_def calculate_reimbursement_b64_def bug_and_round_b64_def hits_bug_b64_def eff_bonus_b64_def rec_comp_b64_def rec_1_6_b64_def low_mile_penalty_b64_def fortnight_adj_b64_def mile_delta_b64_def long_fac_b64_def lims_def to_float_def lit_def fsub_def pymax_def pymin_def flt_def Let_def C_defs e1 e2 e3 e4 e5 e6 e7 e8 e9 e10 e11 e12 e13 e14 e15 e16 e17 e18 e19 e20 e21 e22 e23 e24)
qed

subsection \<open>Ranges and signs of binary64 results\<close>


lemma rnd_two_power: "n < 1024 \<Longrightarrow> rnd (2 ^ n) = 2 ^ n"
  using rnd_exact [of "2 ^ n" 1 "int n"] two_powr_nat [of "int n"] by simp

lemma rnd_small_int: "\<bar>n\<bar> < 2 ^ 53 \<Longrightarrow> rnd (real_of_int n) = real_of_int n"
  by (rule rnd_of_int)



lemma fle_zero_cases: "fle (Fin 0) a \<longleftrightarrow> (\<exists>y. a = Fin y \<and> 0 \<le> y) \<or> a = PInf"
  by (cases a) simp_all





subsection \<open>The efficiency bonus on binary64\<close>




subsection \<open>The five-day cap on binary64\<close>













end
